theory Spec2Isabelle
  imports Complex_Main "HOL-Library.Multiset"
begin

section \<open>Values rendered by cells\<close>

text \<open>
  The values a column's \<open>render\<close> callback returns (\<open>Renderable\<close> in \<open>types.ts\<close>) are
  JavaScript values. The comparators only look at four things: whether a value is
  \<open>undefined\<close> or \<open>null\<close>, whether \<open>typeof\<close> is \<open>'number'\<close>, what \<open>===\<close> says, and what
  \<open>String(...)\<close> returns. An object (template result, DOM node, symbol) is represented
  by its reference and by the text \<open>String(...)\<close> gives for it.

  A number is a whole number below \<open>2^52\<close> in magnitude. On these the number type is exact:
  the difference of two of them is below \<open>2^53\<close> and is not rounded, and \<open>String\<close> prints
  the decimal digits (exponent notation starts at \<open>1e21\<close>). Fractions, larger numbers, \<open>NaN\<close>
  and the infinities are not values of this model.
\<close>

typedef whole = "{n :: int. \<bar>n\<bar> < 2 ^ 52}"
  by (rule exI [of _ 0]) simp

setup_lifting type_definition_whole

text \<open>The number written \<open>n\<close>; a literal out of range is not a value and reads as 0.\<close>

lift_definition whole :: "int \<Rightarrow> whole" is "\<lambda>n. if \<bar>n\<bar> < 2 ^ 52 then n else 0"
  by simp

lift_definition whole_value :: "whole \<Rightarrow> int" is "\<lambda>n. n" .

datatype jsval =
    Undefined
  | Null
  | Bool bool
  | Num whole
  | Str string
  | Obj nat string

text \<open>\<open>isDefined\<close> of \<open>utility.ts\<close>: \<open>typeof value !== 'undefined' && value !== null\<close>.\<close>

fun isDefined :: "jsval \<Rightarrow> bool" where
  "isDefined Undefined = False"
| "isDefined Null = False"
| "isDefined v = True"

text \<open>The operator \<open>===\<close>: primitives by value, objects by reference.\<close>

fun strict_eq :: "jsval \<Rightarrow> jsval \<Rightarrow> bool" where
  "strict_eq Undefined Undefined = True"
| "strict_eq Null Null = True"
| "strict_eq (Bool x) (Bool y) = (x = y)"
| "strict_eq (Num x) (Num y) = (x = y)"
| "strict_eq (Str x) (Str y) = (x = y)"
| "strict_eq (Obj r s) (Obj r' s') = (r = r')"
| "strict_eq v w = False"


text \<open>Decimal digits of a natural number, as \<open>String(n)\<close> prints a whole number.\<close>

definition digit :: "nat \<Rightarrow> char" where
  "digit d = ''0123456789'' ! d"

fun digits :: "nat \<Rightarrow> string" where
  "digits n =
     (if n < 10 then [digit n]
      else digits (n div 10) @ [digit (n mod 10)])"

declare digits.simps [simp del]

text \<open>The coercion \<open>String(value)\<close>.\<close>

fun String :: "jsval \<Rightarrow> string" where
  "String Undefined = ''undefined''"
| "String Null = ''null''"
| "String (Bool b) = (if b then ''true'' else ''false'')"
| "String (Num n) =
     (if whole_value n < 0 then CHR ''-'' # digits (nat (- whole_value n))
      else digits (nat (whole_value n)))"
| "String (Str s) = s"
| "String (Obj r s) = s"

text \<open>
  The operator \<open><\<close> on two strings: lexicographic on code units, a proper prefix first.
\<close>

fun string_less :: "string \<Rightarrow> string \<Rightarrow> bool" where
  "string_less [] [] = False"
| "string_less [] (y # ys) = True"
| "string_less (x # xs) [] = False"
| "string_less (x # xs) (y # ys) =
     (if (of_char x :: nat) < of_char y then True
      else if (of_char y :: nat) < of_char x then False
      else string_less xs ys)"

section \<open>Comparator utilities (\<open>utility.ts\<close>)\<close>

text \<open>A \<open>Comparator<T>\<close> is a function of two values to a number.\<close>

type_synonym 'a Comparator = "'a \<Rightarrow> 'a \<Rightarrow> int"

definition baseComparator :: "('s \<Rightarrow> jsval) \<Rightarrow> jsval Comparator \<Rightarrow> 's Comparator" where
  "baseComparator selector matcher sourceA sourceB =
     (let a = selector sourceA;
          b = selector sourceB
      in if strict_eq a b \<or> (\<not> isDefined a \<and> \<not> isDefined b) then 0
         else if isDefined a \<and> isDefined b then matcher a b
         else if isDefined a then - 1 else 1)"

section \<open>The table (\<open>data-table.ts\<close>)\<close>

text \<open>
  \<open>sortable?: boolean | SortConfig<T>\<close>: the field is missing, a flag, or an object with
  a comparator.
\<close>

datatype 'r Sortable = Missing | Flag bool | SortConfig "'r Comparator"

text \<open>
  A column definition is an object: \<open>ref\<close> is its identity, which is what the sort-state
  \<open>Map\<close> keys on. \<open>render\<close> takes the row and the \<open>rowIndex\<close> of the render state; the
  \<open>table\<close> and \<open>column\<close> fields of that state are not modelled. \<open>id\<close> and \<open>header\<close> only
  reach the markup.
\<close>

record 'r ColumnDefinition =
  ref :: nat
  render :: "'r \<Rightarrow> int \<Rightarrow> jsval"
  sortable :: "'r Sortable"

record SortState =
  direction :: int
  priority :: int

text \<open>
  \<open>Map<ColumnDefinition<T>, SortState>\<close>: the entries in insertion order, keyed by the
  identity of the column.
\<close>

type_synonym 'r SortStates = "('r ColumnDefinition \<times> SortState) list"

fun map_get :: "'r SortStates \<Rightarrow> 'r ColumnDefinition \<Rightarrow> SortState option" where
  "map_get [] column = None"
| "map_get ((c, st) # rest) column =
     (if ref c = ref column then Some st else map_get rest column)"

text \<open>\<open>Map.prototype.set\<close>: an existing key keeps its place, a new key goes last.\<close>

fun map_set :: "'r ColumnDefinition \<Rightarrow> SortState \<Rightarrow> 'r SortStates \<Rightarrow> 'r SortStates" where
  "map_set column v [] = [(column, v)]"
| "map_set column v ((c, st) # rest) =
     (if ref c = ref column then (c, v) # rest else (c, st) # map_set column v rest)"

fun map_delete :: "'r ColumnDefinition \<Rightarrow> 'r SortStates \<Rightarrow> 'r SortStates" where
  "map_delete column [] = []"
| "map_delete column ((c, st) # rest) =
     (if ref c = ref column then rest else (c, st) # map_delete column rest)"

text \<open>
  \<open>data: T[]\<close>: an element of the array is \<open>undefined\<close> (\<open>None\<close>) or another value
  (\<open>Some row\<close>); \<open>'r\<close> is the type of the rows that are not \<open>undefined\<close>. Holes are not
  modelled.
\<close>

record 'r DataTable =
  sortStates :: "'r SortStates"
  data :: "'r option list"
  pageSize :: int
  pageIndex :: int
  multiSort :: bool
  updateRequests :: nat

text \<open>
  \<open>Array.prototype.sort\<close> with a comparator. The elements that are \<open>undefined\<close> are never
  handed to the comparator and come last; the other elements are sorted by the comparator,
  and the sort is stable.

  The language fixes the order of the sorted elements when the comparator is a consistent
  comparator for them (\<open>consistent_comparator\<close> below): it is then the stable order that
  \<open>sort_defined\<close> computes, where an element goes before the first element it does not
  compare greater than and elements are inserted from the right. For any other comparator the
  order is left to the implementation; it is a permutation in every case, and
  \<open>sort_defined\<close> then returns one permutation.
\<close>

fun insert_by :: "'a Comparator \<Rightarrow> 'a \<Rightarrow> 'a list \<Rightarrow> 'a list" where
  "insert_by cmp x [] = [x]"
| "insert_by cmp x (y # ys) =
     (if cmp x y \<le> 0 then x # y # ys else y # insert_by cmp x ys)"

definition sort_defined :: "'a Comparator \<Rightarrow> 'a list \<Rightarrow> 'a list" where
  "sort_defined cmp xs = foldr (insert_by cmp) xs []"

fun defined_elements :: "'a option list \<Rightarrow> 'a list" where
  "defined_elements [] = []"
| "defined_elements (None # xs) = defined_elements xs"
| "defined_elements (Some x # xs) = x # defined_elements xs"

definition array_sort :: "'a Comparator \<Rightarrow> 'a option list \<Rightarrow> 'a option list" where
  "array_sort cmp xs =
     map Some (sort_defined cmp (defined_elements xs)) @ filter (\<lambda>x. x = None) xs"

text \<open>
  A consistent comparator for the values \<open>xs\<close>, as the language defines it: every value
  compares equal to itself, comparing equal is symmetric and transitive, and comparing
  less and comparing greater are transitive.
\<close>

definition consistent_comparator :: "'a Comparator \<Rightarrow> 'a list \<Rightarrow> bool" where
  "consistent_comparator cmp xs \<longleftrightarrow>
     (\<forall>a \<in> set xs. cmp a a = 0)
     \<and> (\<forall>a \<in> set xs. \<forall>b \<in> set xs. cmp a b = 0 \<longrightarrow> cmp b a = 0)
     \<and> (\<forall>a \<in> set xs. \<forall>b \<in> set xs. \<forall>c \<in> set xs.
           cmp a b = 0 \<and> cmp b c = 0 \<longrightarrow> cmp a c = 0)
     \<and> (\<forall>a \<in> set xs. \<forall>b \<in> set xs. \<forall>c \<in> set xs.
           cmp a b < 0 \<and> cmp b c < 0 \<longrightarrow> cmp a c < 0)
     \<and> (\<forall>a \<in> set xs. \<forall>b \<in> set xs. \<forall>c \<in> set xs.
           cmp a b > 0 \<and> cmp b c > 0 \<longrightarrow> cmp a c > 0)"

text \<open>The matcher that \<open>sortData\<close> passes to \<open>baseComparator\<close>.\<close>

definition valueMatcher :: "jsval Comparator" where
  "valueMatcher valueA valueB =
     (case (valueA, valueB) of
        (Num x, Num y) \<Rightarrow> whole_value x - whole_value y
      | _ \<Rightarrow>
         (let stringA = String valueA;
              stringB = String valueB
          in if stringA = stringB then 0
             else if string_less stringA stringB then - 1 else 1))"

text \<open>
  The body of the immediately invoked function in \<open>sortData\<close>: the result of one column
  for two rows. \<open>render\<close> is called with \<open>rowIndex: -1\<close>.
\<close>

definition columnResult :: "'r ColumnDefinition \<Rightarrow> 'r Comparator" where
  "columnResult column rowA rowB =
     (case sortable column of
        SortConfig comparator \<Rightarrow> comparator rowA rowB
      | _ \<Rightarrow> baseComparator (\<lambda>row. render column row (- 1)) valueMatcher rowA rowB)"

text \<open>The \<open>for ... of priorityOrder\<close> loop of the callback given to \<open>data.sort\<close>.\<close>

fun rowComparator :: "'r SortStates \<Rightarrow> 'r Comparator" where
  "rowComparator [] rowA rowB = 0"
| "rowComparator ((column, st) # rest) rowA rowB =
     (let result = columnResult column rowA rowB
      in if result \<noteq> 0 then result * direction st
         else rowComparator rest rowA rowB)"

text \<open>
  \<open>[...this.sortStates.entries()].sort((a, b) => a[1].priority - b[1].priority)\<close>: the
  entries are pairs, so none of the sorted elements is \<open>undefined\<close>.
\<close>

definition priorityOrder :: "'r SortStates \<Rightarrow> 'r SortStates" where
  "priorityOrder states =
     defined_elements
       (array_sort (\<lambda>a b. priority (snd a) - priority (snd b)) (map Some states))"

definition sortData :: "'r DataTable \<Rightarrow> 'r DataTable" where
  "sortData t = t\<lparr>data := array_sort (rowComparator (priorityOrder (sortStates t))) (data t)\<rparr>"

definition requestUpdate :: "'r DataTable \<Rightarrow> 'r DataTable" where
  "requestUpdate t = t\<lparr>updateRequests := Suc (updateRequests t)\<rparr>"

text \<open>
  The \<open>forEach\<close> of the second branch of \<open>setColumnSort\<close>: every entry, taken in priority
  order, is stored again with \<open>priority: index + 1\<close>.
\<close>

definition renumber :: "'r SortStates \<Rightarrow> 'r SortStates" where
  "renumber states =
     foldl (\<lambda>m (index, entry). map_set (fst entry) ((snd entry)\<lparr>priority := int index + 1\<rparr>) m)
       states (enumerate 0 (priorityOrder states))"

text \<open>
  The priority of a new entry:
  \<open>[...values()].reduce((result, { priority }) => Math.max(result, priority + 1), 1)\<close>.
\<close>

definition nextPriority :: "'r SortStates \<Rightarrow> int" where
  "nextPriority states = foldl (\<lambda>result st. max result (priority st + 1)) 1 (map snd states)"

text \<open>
  The three branches of \<open>setColumnSort\<close> on the map, with the value \<open>shouldSort\<close> has
  after them.
\<close>

definition setColumnSort_states ::
  "'r ColumnDefinition \<Rightarrow> int \<Rightarrow> 'r SortStates \<Rightarrow> 'r SortStates \<times> bool" where
  "setColumnSort_states column dir states =
     (let sortState = map_get states column
      in if sortState \<noteq> None \<and> dir \<noteq> 0 \<and> direction (the sortState) \<noteq> dir
         then (map_set column ((the sortState)\<lparr>direction := dir\<rparr>) states, True)
         else if sortState \<noteq> None \<and> dir = 0
         then (let states' = renumber (map_delete column states)
               in (states', length states' > 0))
         else if sortState = None \<and> dir \<noteq> 0
         then (map_set column \<lparr>direction = dir, priority = nextPriority states\<rparr> states, True)
         else (states, False))"

definition setColumnSort :: "'r ColumnDefinition \<Rightarrow> int \<Rightarrow> 'r DataTable \<Rightarrow> 'r DataTable" where
  "setColumnSort column dir t =
     (let (states', shouldSort) = setColumnSort_states column dir (sortStates t);
          t' = t\<lparr>sortStates := states'\<rparr>;
          t'' = (if shouldSort then sortData t' else t')
      in requestUpdate t'')"

definition clearTableSort :: "'r DataTable \<Rightarrow> 'r DataTable" where
  "clearTableSort t = requestUpdate (t\<lparr>sortStates := []\<rparr>)"

definition clearColumnSort :: "'r ColumnDefinition \<Rightarrow> 'r DataTable \<Rightarrow> 'r DataTable" where
  "clearColumnSort column t = setColumnSort column 0 t"

definition toggleColumnSort :: "'r ColumnDefinition \<Rightarrow> 'r DataTable \<Rightarrow> 'r DataTable" where
  "toggleColumnSort column t =
     (let sortState = map_get (sortStates t) column;
          t' = (if \<not> multiSort t then clearTableSort t else t)
      in setColumnSort column
           ((case sortState of None \<Rightarrow> - 1 | Some st \<Rightarrow> direction st) * (- 1)) t')"

text \<open>\<open>get pageCount\<close>: \<open>Math.ceil\<close> of the quotient of the two numbers.\<close>

definition pageCount :: "'r DataTable \<Rightarrow> int" where
  "pageCount t =
     (if pageSize t > 0
      then \<lceil>real (length (data t)) / real_of_int (pageSize t)\<rceil>
      else 0)"

text \<open>
  \<open>Array.prototype.slice(start, end)\<close>: a negative index counts from the end, both
  indices are clamped to the array, and the result is empty when they cross.
\<close>

definition array_slice :: "'a list \<Rightarrow> int \<Rightarrow> int \<Rightarrow> 'a list" where
  "array_slice xs start end' =
     (let len = int (length xs);
          k = (if start < 0 then max (len + start) 0 else min start len);
          final = (if end' < 0 then max (len + end') 0 else min end' len)
      in take (nat (final - k)) (drop (nat k) xs))"

definition getDisplayData :: "'r DataTable \<Rightarrow> 'r option list" where
  "getDisplayData t =
     (if pageSize t \<noteq> 0
      then (let start = pageIndex t * pageSize t;
                end' = start + pageSize t
            in array_slice (data t) start end')
      else data t)"

section \<open>Example tables\<close>

text \<open>Rows that are objects with one field, and columns that show the field.\<close>

datatype cell_row = Row jsval

fun cell :: "cell_row \<Rightarrow> jsval" where
  "cell (Row v) = v"

definition value_column :: "cell_row ColumnDefinition" where
  "value_column = \<lparr>ref = 0, render = (\<lambda>row rowIndex. cell row), sortable = Flag True\<rparr>"

text \<open>The row whose field is the number \<open>n\<close>, as an array element.\<close>

definition number_row :: "int \<Rightarrow> cell_row option" where
  "number_row n = Some (Row (Num (whole n)))"

definition two_rows :: "cell_row option list" where
  "two_rows = [number_row 2, number_row 1]"

text \<open>A table as the constructor leaves it, with the given rows and \<open>multiSort\<close> flag.\<close>

definition new_table :: "'r option list \<Rightarrow> bool \<Rightarrow> 'r DataTable" where
  "new_table rows multi =
     \<lparr>sortStates = [], data = rows, pageSize = 0, pageIndex = 0, multiSort = multi,
      updateRequests = 0\<rparr>"

text \<open>A selector for sources that are values themselves.\<close>

definition self_selector :: "jsval \<Rightarrow> jsval" where
  "self_selector v = v"

text \<open>A table with the given rows, page size and page index.\<close>

definition paged_table :: "'r option list \<Rightarrow> int \<Rightarrow> int \<Rightarrow> 'r DataTable" where
  "paged_table rows size' index = (new_table rows False)\<lparr>pageSize := size', pageIndex := index\<rparr>"

definition ten_rows :: "nat option list" where
  "ten_rows = map Some [0, 1, 2, 3, 4, 5, 6, 7, 8, 9]"

section \<open>Well-formed sort states\<close>

text \<open>\<open>SortState.direction\<close> has the type \<open>-1 | 1\<close>.\<close>

definition directions_ok :: "'r SortStates \<Rightarrow> bool" where
  "directions_ok states =
     list_all (\<lambda>entry. direction (snd entry) = 1 \<or> direction (snd entry) = - 1) states"

definition plain_column :: "cell_row ColumnDefinition" where
  "plain_column = \<lparr>ref = 1, render = (\<lambda>row rowIndex. cell row), sortable = Missing\<rparr>"

definition unsortable_column :: "cell_row ColumnDefinition" where
  "unsortable_column = \<lparr>ref = 2, render = (\<lambda>row rowIndex. cell row), sortable = Flag False\<rparr>"

definition ascending :: SortState where
  "ascending = \<lparr>direction = 1, priority = 1\<rparr>"

definition descending :: SortState where
  "descending = \<lparr>direction = - 1, priority = 1\<rparr>"

section \<open>The row order as the specification words it\<close>










section \<open>Invariants of the sort-state map\<close>

text \<open>A \<open>Map\<close> holds each key once.\<close>

definition keys_distinct :: "'r SortStates \<Rightarrow> bool" where
  "keys_distinct states = distinct (map (\<lambda>entry. ref (fst entry)) states)"

text \<open>The priorities of the entries are the numbers 1 to N, each once.\<close>

definition priorities_ok :: "'r SortStates \<Rightarrow> bool" where
  "priorities_ok states \<longleftrightarrow>
     distinct (map (\<lambda>entry. priority (snd entry)) states)
     \<and> set (map (\<lambda>entry. priority (snd entry)) states) = {1..int (length states)}"

text \<open>
  What the \<open>forEach\<close> of \<open>setColumnSort\<close> leaves under the key of \<open>column\<close>, which held
  \<open>st\<close>, after storing the entries \<open>entries\<close> with the indices from \<open>index\<close> on.
\<close>

fun renumbered :: "nat \<Rightarrow> 'r SortStates \<Rightarrow> 'r ColumnDefinition \<Rightarrow> SortState \<Rightarrow> SortState" where
  "renumbered index [] column st = st"
| "renumbered index (entry # entries) column st =
     renumbered (Suc index) entries column
       (if ref (fst entry) = ref column then (snd entry)\<lparr>priority := int index + 1\<rparr> else st)"

text \<open>The chain with its priorities replaced by the positions, counted from 1.\<close>

definition dense :: "'r SortStates \<Rightarrow> 'r SortStates" where
  "dense chain = map (\<lambda>(index, entry). (fst entry, (snd entry)\<lparr>priority := int index + 1\<rparr>)) (enumerate 0 chain)"

text \<open>The four calls that change the sort states.\<close>

datatype 'r Call =
    ToggleColumnSort "'r ColumnDefinition"
  | ClearColumnSort "'r ColumnDefinition"
  | SetColumnSort "'r ColumnDefinition" int
  | ClearTableSort

fun call :: "'r Call \<Rightarrow> 'r DataTable \<Rightarrow> 'r DataTable" where
  "call (ToggleColumnSort column) t = toggleColumnSort column t"
| "call (ClearColumnSort column) t = clearColumnSort column t"
| "call (SetColumnSort column dir) t = setColumnSort column dir t"
| "call ClearTableSort t = clearTableSort t"

text \<open>A sequence of calls, the first call first.\<close>

definition run :: "'r Call list \<Rightarrow> 'r DataTable \<Rightarrow> 'r DataTable" where
  "run calls t = fold call calls t"

section \<open>Numbers\<close>

lemma whole_value_whole: "whole_value (whole n) = (if \<bar>n\<bar> < 2 ^ 52 then n else 0)"
  by transfer simp

lemma whole_eq_iff: "x = y \<longleftrightarrow> whole_value x = whole_value y"
  by transfer simp

lemma whole_value_bound: "\<bar>whole_value x\<bar> < 2 ^ 52"
  by transfer simp

lemmas whole_simps = whole_value_whole whole_eq_iff

section \<open>The comparator utilities\<close>

text \<open>
  C7. \<open>baseComparator(selector, matcher)\<close> returns 0 when both selected values are absent;
  -1 when only the first operand's value is defined and 1 when only the second's is;
  0 whatever the matcher is when the two selected values are identical; and the matcher's
  result on the two values otherwise.
\<close>

theorem baseComparator_cases:
  "(\<not> isDefined (selector x) \<and> \<not> isDefined (selector y)
      \<longrightarrow> baseComparator selector matcher x y = 0)
   \<and> (isDefined (selector x) \<and> \<not> isDefined (selector y)
      \<longrightarrow> baseComparator selector matcher x y = - 1)
   \<and> (\<not> isDefined (selector x) \<and> isDefined (selector y)
      \<longrightarrow> baseComparator selector matcher x y = 1)
   \<and> (strict_eq (selector x) (selector y)
      \<longrightarrow> (\<forall>m. baseComparator selector m x y = 0))
   \<and> (isDefined (selector x) \<and> isDefined (selector y) \<and> \<not> strict_eq (selector x) (selector y)
      \<longrightarrow> baseComparator selector matcher x y = matcher (selector x) (selector y))"
proof -
  have absent: "\<not> strict_eq a b" if "isDefined a \<noteq> isDefined b" for a b
    using that by (cases a; cases b) simp_all
  show ?thesis
    by (auto simp: baseComparator_def Let_def dest: absent [THEN notE, rotated])
qed

theorem baseComparator_cases_witness:
  "baseComparator self_selector valueMatcher Undefined Null = 0
   \<and> baseComparator self_selector valueMatcher (Num (whole 5)) Null = - 1
   \<and> baseComparator self_selector valueMatcher Undefined (Str ''a'') = 1
   \<and> baseComparator self_selector valueMatcher (Obj 7 ''x'') (Obj 7 ''x'') = 0
   \<and> baseComparator self_selector valueMatcher (Num (whole 5)) (Num (whole 3)) = 2"
  using baseComparator_cases [of self_selector Undefined Null valueMatcher]
    baseComparator_cases [of self_selector "Num (whole 5)" Null valueMatcher]
    baseComparator_cases [of self_selector Undefined "Str ''a''" valueMatcher]
    baseComparator_cases [of self_selector "Obj 7 ''x''" "Obj 7 ''x''" valueMatcher]
    baseComparator_cases [of self_selector "Num (whole 5)" "Num (whole 3)" valueMatcher]
  by (simp add: self_selector_def valueMatcher_def whole_simps)

section \<open>What the operations leave unchanged\<close>

lemma mset_insert_by: "mset (insert_by cmp x xs) = add_mset x (mset xs)"
  by (induction xs) simp_all

lemma mset_sort_defined: "mset (sort_defined cmp xs) = mset xs"
  by (induction xs) (simp_all add: sort_defined_def mset_insert_by)

lemma mset_defined_elements:
  "image_mset Some (mset (defined_elements xs)) + filter_mset (\<lambda>x. x = None) (mset xs) = mset xs"
  by (induction xs rule: defined_elements.induct) simp_all

lemma mset_array_sort: "mset (array_sort cmp xs) = mset xs"
  by (simp add: array_sort_def mset_sort_defined mset_defined_elements)

lemma defined_elements_Some: "defined_elements (map Some xs) = xs"
  by (induction xs) simp_all

lemma array_sort_Some: "array_sort cmp (map Some xs) = map Some (sort_defined cmp xs)"
  by (simp add: array_sort_def defined_elements_Some)

lemma data_requestUpdate: "data (requestUpdate t) = data t"
  by (simp add: requestUpdate_def)

lemma sortStates_requestUpdate: "sortStates (requestUpdate t) = sortStates t"
  by (simp add: requestUpdate_def)

lemma sortStates_sortData: "sortStates (sortData t) = sortStates t"
  by (simp add: sortData_def)

lemma mset_data_sortData: "mset (data (sortData t)) = mset (data t)"
  by (simp add: sortData_def mset_array_sort)

lemma sortStates_setColumnSort:
  "sortStates (setColumnSort column dir t) = fst (setColumnSort_states column dir (sortStates t))"
  by (simp add: setColumnSort_def Let_def split_beta sortStates_requestUpdate sortStates_sortData)

lemma multiSort_setColumnSort: "multiSort (setColumnSort column dir t) = multiSort t"
  by (simp add: setColumnSort_def Let_def split_beta requestUpdate_def sortData_def)

lemma mset_data_setColumnSort: "mset (data (setColumnSort column dir t)) = mset (data t)"
  by (simp add: setColumnSort_def Let_def split_beta data_requestUpdate mset_data_sortData)

lemma mset_data_clearTableSort: "mset (data (clearTableSort t)) = mset (data t)"
  by (simp add: clearTableSort_def data_requestUpdate)

lemma sortStates_clearTableSort: "sortStates (clearTableSort t) = []"
  by (simp add: clearTableSort_def requestUpdate_def)

lemma sortStates_toggleColumnSort:
  "sortStates (toggleColumnSort column t) =
     fst (setColumnSort_states column
            ((case map_get (sortStates t) column of None \<Rightarrow> - 1 | Some st \<Rightarrow> direction st) * (- 1))
            (if multiSort t then sortStates t else []))"
  by (simp add: toggleColumnSort_def Let_def sortStates_setColumnSort clearTableSort_def
      sortStates_requestUpdate)

lemma multiSort_toggleColumnSort: "multiSort (toggleColumnSort column t) = multiSort t"
  by (simp add: toggleColumnSort_def Let_def multiSort_setColumnSort clearTableSort_def
      requestUpdate_def)

text \<open>
  C10. Each of \<open>toggleColumnSort\<close>, \<open>clearColumnSort\<close>, \<open>setColumnSort\<close> and
  \<open>clearTableSort\<close> leaves the rows a permutation of what they were: the multiset of rows
  and their number are the same before and after, whether or not the call sorts.
\<close>

theorem rows_permuted:
  "mset (data (toggleColumnSort column t)) = mset (data t)
   \<and> mset (data (clearColumnSort column t)) = mset (data t)
   \<and> mset (data (setColumnSort column dir t)) = mset (data t)
   \<and> mset (data (clearTableSort t)) = mset (data t)
   \<and> length (data (toggleColumnSort column t)) = length (data t)
   \<and> length (data (clearColumnSort column t)) = length (data t)
   \<and> length (data (setColumnSort column dir t)) = length (data t)
   \<and> length (data (clearTableSort t)) = length (data t)"
proof -
  have toggle: "mset (data (toggleColumnSort column t)) = mset (data t)"
    by (simp add: toggleColumnSort_def Let_def mset_data_setColumnSort mset_data_clearTableSort)
  have clear: "mset (data (clearColumnSort column t)) = mset (data t)"
    by (simp add: clearColumnSort_def mset_data_setColumnSort)
  note sets = toggle clear mset_data_setColumnSort [of column dir t] mset_data_clearTableSort [of t]
  from sets [THEN mset_eq_length] sets show ?thesis
    by simp
qed

section \<open>The sort with a consistent comparator\<close>

text \<open>
  With a consistent comparator the sorted elements come out in an order in which no element
  compares greater than a later one, which is what the language asks of the sort.
\<close>

lemma consistent_comparatorD:
  assumes "consistent_comparator cmp xs"
  shows "\<And>a. a \<in> set xs \<Longrightarrow> cmp a a = 0"
    and "\<And>a b. a \<in> set xs \<Longrightarrow> b \<in> set xs \<Longrightarrow> cmp a b = 0 \<Longrightarrow> cmp b a = 0"
    and "\<And>a b c. a \<in> set xs \<Longrightarrow> b \<in> set xs \<Longrightarrow> c \<in> set xs \<Longrightarrow>
           cmp a b = 0 \<Longrightarrow> cmp b c = 0 \<Longrightarrow> cmp a c = 0"
    and "\<And>a b c. a \<in> set xs \<Longrightarrow> b \<in> set xs \<Longrightarrow> c \<in> set xs \<Longrightarrow>
           cmp a b < 0 \<Longrightarrow> cmp b c < 0 \<Longrightarrow> cmp a c < 0"
    and "\<And>a b c. a \<in> set xs \<Longrightarrow> b \<in> set xs \<Longrightarrow> c \<in> set xs \<Longrightarrow>
           cmp a b > 0 \<Longrightarrow> cmp b c > 0 \<Longrightarrow> cmp a c > 0"
proof -
  note c = assms [unfolded consistent_comparator_def]
  note 1 = c [THEN conjunct1]
    and 2 = c [THEN conjunct2, THEN conjunct1]
    and 3 = c [THEN conjunct2, THEN conjunct2, THEN conjunct1]
    and 4 = c [THEN conjunct2, THEN conjunct2, THEN conjunct2, THEN conjunct1]
    and 5 = c [THEN conjunct2, THEN conjunct2, THEN conjunct2, THEN conjunct2]
  show "\<And>a. a \<in> set xs \<Longrightarrow> cmp a a = 0" using 1 by blast
  show "\<And>a b. a \<in> set xs \<Longrightarrow> b \<in> set xs \<Longrightarrow> cmp a b = 0 \<Longrightarrow> cmp b a = 0" using 2 by blast
  show "\<And>a b c. a \<in> set xs \<Longrightarrow> b \<in> set xs \<Longrightarrow> c \<in> set xs \<Longrightarrow>
           cmp a b = 0 \<Longrightarrow> cmp b c = 0 \<Longrightarrow> cmp a c = 0" using 3 by blast
  show "\<And>a b c. a \<in> set xs \<Longrightarrow> b \<in> set xs \<Longrightarrow> c \<in> set xs \<Longrightarrow>
           cmp a b < 0 \<Longrightarrow> cmp b c < 0 \<Longrightarrow> cmp a c < 0" using 4 by blast
  show "\<And>a b c. a \<in> set xs \<Longrightarrow> b \<in> set xs \<Longrightarrow> c \<in> set xs \<Longrightarrow>
           cmp a b > 0 \<Longrightarrow> cmp b c > 0 \<Longrightarrow> cmp a c > 0" using 5 by blast
qed

lemma consistent_subset:
  assumes "consistent_comparator cmp xs" and "set ys \<subseteq> set xs"
  shows "consistent_comparator cmp ys"
proof -
  note d = consistent_comparatorD [OF assms(1)]
  have mem: "a \<in> set xs" if "a \<in> set ys" for a
    using that assms(2) by blast
  show ?thesis
    unfolding consistent_comparator_def
  proof (intro conjI ballI impI; (elim conjE)?)
    fix a assume "a \<in> set ys"
    then show "cmp a a = 0" by (intro d(1) mem)
  next
    fix a b assume "a \<in> set ys" "b \<in> set ys" "cmp a b = 0"
    then show "cmp b a = 0" by (intro d(2) [of a b] mem)
  next
    fix a b c assume "a \<in> set ys" "b \<in> set ys" "c \<in> set ys" "cmp a b = 0" "cmp b c = 0"
    then show "cmp a c = 0" by (intro d(3) [of a b c] mem)
  next
    fix a b c assume "a \<in> set ys" "b \<in> set ys" "c \<in> set ys" "cmp a b < 0" "cmp b c < 0"
    then show "cmp a c < 0" by (intro d(4) [of a b c] mem)
  next
    fix a b c assume "a \<in> set ys" "b \<in> set ys" "c \<in> set ys" "0 < cmp a b" "0 < cmp b c"
    then show "0 < cmp a c" by (intro d(5) [of a b c] mem)
  qed
qed

lemma consistent_greater_less:
  assumes "consistent_comparator cmp xs" and "a \<in> set xs" and "b \<in> set xs" and "cmp a b > 0"
  shows "cmp b a < 0"
proof (rule ccontr)
  note d = consistent_comparatorD [OF assms(1)]
  assume "\<not> cmp b a < 0"
  then consider "cmp b a = 0" | "cmp b a > 0" by linarith
  then show False
  proof cases
    case 1
    then have "cmp a b = 0" using d(2) [of b a] assms(2,3) by simp
    with assms(4) show False by simp
  next
    case 2
    then have "cmp a a > 0" using d(5) [of a b a] assms(2,3,4) by simp
    moreover have "cmp a a = 0" using d(1) assms(2) by simp
    ultimately show False by simp
  qed
qed

lemma consistent_le_trans:
  assumes c: "consistent_comparator cmp xs"
    and mem: "a \<in> set xs" "b \<in> set xs" "d \<in> set xs"
    and le: "cmp a b \<le> 0" "cmp b d \<le> 0"
  shows "cmp a d \<le> 0"
proof (rule ccontr)
  note D = consistent_comparatorD [OF c]
  assume "\<not> cmp a d \<le> 0"
  then have ad: "cmp a d > 0" by simp
  then have da: "cmp d a < 0" using consistent_greater_less [OF c mem(1,3)] by simp
  consider "cmp a b < 0" "cmp b d < 0" | "cmp a b = 0" "cmp b d = 0"
    | "cmp a b < 0" "cmp b d = 0" | "cmp a b = 0" "cmp b d < 0"
    using le by linarith
  then show False
  proof cases
    case 1
    then have "cmp a d < 0" using D(4) [of a b d] mem by simp
    with ad show False by simp
  next
    case 2
    then have "cmp a d = 0" using D(3) [of a b d] mem by simp
    with ad show False by simp
  next
    case 3
    from da 3(1) have "cmp d b < 0" using D(4) [of d a b] mem by simp
    moreover from 3(2) have "cmp d b = 0" using D(2) [of b d] mem by simp
    ultimately show False by simp
  next
    case 4
    from da 4(2) have "cmp b a < 0" using D(4) [of b d a] mem by simp
    moreover from 4(1) have "cmp b a = 0" using D(2) [of a b] mem by simp
    ultimately show False by simp
  qed
qed

lemma set_insert_by: "set (insert_by cmp x xs) = insert x (set xs)"
  by (induction xs) auto

lemma set_sort_defined: "set (sort_defined cmp xs) = set xs"
  by (induction xs) (simp_all add: sort_defined_def set_insert_by)

lemma sorted_insert_by:
  assumes "consistent_comparator cmp (x # xs)" and "sorted_wrt (\<lambda>a b. cmp a b \<le> 0) xs"
  shows "sorted_wrt (\<lambda>a b. cmp a b \<le> 0) (insert_by cmp x xs)"
  using assms
proof (induction xs)
  case Nil
  then show ?case by simp
next
  case (Cons y ys)
  note c = Cons.prems(1)
  show ?case
  proof (cases "cmp x y \<le> 0")
    case True
    have "cmp x z \<le> 0" if "z \<in> set ys" for z
    proof -
      from Cons.prems(2) that have "cmp y z \<le> 0" by simp
      with True show ?thesis
        using consistent_le_trans [OF c, of x y z] that by simp
    qed
    with True Cons.prems(2) show ?thesis by simp
  next
    case False
    then have "cmp y x < 0"
      using consistent_greater_less [OF c, of x y] by simp
    moreover have "consistent_comparator cmp (x # ys)"
      using c by (rule consistent_subset) auto
    moreover from Cons.prems(2) have "sorted_wrt (\<lambda>a b. cmp a b \<le> 0) ys" by simp
    ultimately show ?thesis
      using False Cons.prems(2) Cons.IH by (auto simp: set_insert_by)
  qed
qed

lemma sorted_sort_defined:
  "consistent_comparator cmp xs \<Longrightarrow> sorted_wrt (\<lambda>a b. cmp a b \<le> 0) (sort_defined cmp xs)"
proof (induction xs)
  case Nil
  then show ?case by (simp add: sort_defined_def)
next
  case (Cons x xs)
  have rest: "consistent_comparator cmp xs"
    using Cons.prems by (rule consistent_subset) auto
  have "consistent_comparator cmp (x # sort_defined cmp xs)"
    using Cons.prems by (rule consistent_subset) (simp add: set_sort_defined)
  then have "sorted_wrt (\<lambda>a b. cmp a b \<le> 0) (insert_by cmp x (sort_defined cmp xs))"
    using Cons.IH [OF rest] by (rule sorted_insert_by)
  then show ?case by (simp add: sort_defined_def)
qed

section \<open>Pagination\<close>

lemma ceil_div_int:
  fixes n p :: int
  assumes "0 < p"
  shows "- ((- n) div p) = (n + p - 1) div p"
proof -
  define q where "q = n div p"
  define r where "r = n mod p"
  have n: "n = p * q + r" by (simp add: q_def r_def)
  have r: "0 \<le> r" "r < p" using assms by (simp_all add: r_def)
  show ?thesis
  proof (cases "r = 0")
    case True
    have a: "(- n) div p = - q"
      by (rule int_div_pos_eq [where r = 0]) (use assms n True in simp_all)
    have "(n + p - 1) div p = q"
      by (rule int_div_pos_eq [where r = "p - 1"]) (use assms n True in simp_all)
    with a show ?thesis by simp
  next
    case False
    have a: "(- n) div p = - q - 1"
      by (rule int_div_pos_eq [where r = "p - r"]) (use r n False in \<open>simp_all add: algebra_simps\<close>)
    have "(n + p - 1) div p = q + 1"
      by (rule int_div_pos_eq [where r = "r - 1"]) (use r n False in \<open>simp_all add: algebra_simps\<close>)
    with a show ?thesis by simp
  qed
qed

lemma pageCount_div:
  assumes "pageSize t > 0"
  shows "pageCount t = (int (length (data t)) + pageSize t - 1) div pageSize t"
proof -
  have "\<lceil>real_of_int (int (length (data t))) / real_of_int (pageSize t)\<rceil>
          = - ((- int (length (data t))) div pageSize t)"
    by (rule ceiling_divide_eq_div)
  with assms show ?thesis
    by (simp add: pageCount_def ceil_div_int)
qed

lemma slice_forward:
  assumes "0 \<le> start" "0 \<le> n"
  shows "array_slice xs start (start + n) = take (nat n) (drop (nat start) xs)"
proof (cases "start \<le> int (length xs)")
  case True
  then show ?thesis using assms
    by (auto simp: array_slice_def Let_def min_def take_all_iff)
next
  case False
  then show ?thesis using assms
    by (auto simp: array_slice_def Let_def min_def)
qed

text \<open>
  C8, amended. \<open>pageCount\<close> is the rounded-up quotient of the number of rows by
  \<open>pageSize\<close> when \<open>pageSize > 0\<close> and 0 otherwise. With \<open>pageSize > 0\<close> and
  \<open>pageIndex \<ge> 0\<close>, \<open>getDisplayData\<close> is the \<open>pageSize\<close> rows from index
  \<open>pageIndex * pageSize\<close> on, and it is empty when \<open>pageIndex \<ge> pageCount\<close>. With
  \<open>pageSize = 0\<close> it is the whole collection.
\<close>

theorem display_page:
  "(pageSize t > 0 \<longrightarrow> pageCount t = (int (length (data t)) + pageSize t - 1) div pageSize t)
   \<and> (pageSize t \<le> 0 \<longrightarrow> pageCount t = 0)
   \<and> (pageSize t > 0 \<and> pageIndex t \<ge> 0 \<longrightarrow>
        getDisplayData t = take (nat (pageSize t)) (drop (nat (pageIndex t * pageSize t)) (data t)))
   \<and> (pageSize t > 0 \<and> pageIndex t \<ge> pageCount t \<longrightarrow> getDisplayData t = [])
   \<and> (pageSize t = 0 \<longrightarrow> getDisplayData t = data t)"
proof -
  have page: "getDisplayData t = take (nat (pageSize t)) (drop (nat (pageIndex t * pageSize t)) (data t))"
    if "pageSize t > 0" "pageIndex t \<ge> 0"
    using that slice_forward [of "pageIndex t * pageSize t" "pageSize t" "data t"]
    by (simp add: getDisplayData_def Let_def)
  have beyond: "getDisplayData t = []" if "pageSize t > 0" "pageIndex t \<ge> pageCount t"
  proof -
    have "real (length (data t)) / real_of_int (pageSize t) \<le> real_of_int (pageCount t)"
      using that by (simp add: pageCount_def)
    then have "real (length (data t)) \<le> real_of_int (pageCount t) * real_of_int (pageSize t)"
      using that by (simp add: field_simps)
    then have "int (length (data t)) \<le> pageCount t * pageSize t"
      by (metis of_int_le_iff of_int_mult of_int_of_nat_eq)
    also have "\<dots> \<le> pageIndex t * pageSize t"
      using that by (simp add: mult_right_mono)
    finally have far: "int (length (data t)) \<le> pageIndex t * pageSize t" .
    have "0 \<le> real (length (data t)) / real_of_int (pageSize t)"
      using that by simp
    then have "- 1 < real (length (data t)) / real_of_int (pageSize t)"
      by linarith
    then have "pageCount t \<ge> 0"
      using that(1) by (simp add: pageCount_def)
    with that have "pageIndex t \<ge> 0" by simp
    with that far show ?thesis
      by (simp add: page)
  qed
  have none: "pageCount t = 0" if "pageSize t \<le> 0"
    using that by (simp add: pageCount_def)
  have whole: "getDisplayData t = data t" if "pageSize t = 0"
    using that by (simp add: getDisplayData_def)
  from pageCount_div [of t] none page beyond whole show ?thesis
    by blast
qed

theorem display_page_witness:
  "pageCount (paged_table ten_rows 3 1) = 4
   \<and> getDisplayData (paged_table ten_rows 3 1) = [Some 3, Some 4, Some 5]
   \<and> getDisplayData (paged_table ten_rows 3 4) = []
   \<and> getDisplayData (paged_table ten_rows 0 2) = ten_rows
   \<and> pageCount (paged_table ten_rows (- 3) 0) = 0"
  using display_page [of "paged_table ten_rows 3 1"] display_page [of "paged_table ten_rows 3 4"]
    display_page [of "paged_table ten_rows 0 2"] display_page [of "paged_table ten_rows (- 3) 0"]
  by (simp add: paged_table_def new_table_def ten_rows_def)

text \<open>
  With ten rows and \<open>pageSize = 3\<close>, the out-of-range \<open>pageIndex = -2\<close> shows rows 4, 5
  and 6: \<open>slice\<close> counts negative indices from the end.
\<close>

theorem negative_page_counterexample:
  "pageSize (paged_table ten_rows 3 (- 2)) > 0
   \<and> pageIndex (paged_table ten_rows 3 (- 2)) < 0
   \<and> getDisplayData (paged_table ten_rows 3 (- 2)) = [Some 4, Some 5, Some 6]
   \<and> getDisplayData (paged_table ten_rows 3 (- 2)) \<noteq> []"
  by (simp add: paged_table_def new_table_def ten_rows_def getDisplayData_def array_slice_def)

section \<open>Lookups in the sort-state map\<close>

lemma map_get_map_set_same: "map_get (map_set column v states) column = Some v"
  by (induction states) auto

lemma map_get_direction:
  "directions_ok states \<Longrightarrow> map_get states column = Some st \<Longrightarrow>
     direction st = 1 \<or> direction st = - 1"
  by (induction states) (auto simp: directions_ok_def split: if_splits)

lemma nextPriority_Nil: "nextPriority [] = 1"
  by (simp add: nextPriority_def)

section \<open>Absent values\<close>

lemma baseComparator_one_absent:
  assumes "isDefined (selector x)" and "\<not> isDefined (selector y)"
  shows "baseComparator selector matcher x y = - 1"
    and "baseComparator selector matcher y x = 1"
proof -
  have "\<not> strict_eq (selector x) (selector y)" "\<not> strict_eq (selector y) (selector x)"
    using assms by (cases "selector x"; cases "selector y"; simp)+
  with assms show "baseComparator selector matcher x y = - 1"
    and "baseComparator selector matcher y x = 1"
    by (simp_all add: baseComparator_def Let_def)
qed

lemma columnResult_one_absent:
  assumes "sortable column = Missing \<or> sortable column = Flag flag"
    and "isDefined (render column x (- 1))" and "\<not> isDefined (render column y (- 1))"
  shows "columnResult column x y = - 1" and "columnResult column y x = 1"
  using assms(1) baseComparator_one_absent [of "\<lambda>row. render column row (- 1)" x y, OF assms(2,3)]
  by (auto simp: columnResult_def)

lemma array_sort_pair:
  "array_sort cmp [Some x, Some y] = (if cmp x y \<le> 0 then [Some x, Some y] else [Some y, Some x])"
  by (simp add: array_sort_def sort_defined_def)

lemma strict_eq_refl: "strict_eq v v"
  by (cases v) simp_all

lemma columnResult_same:
  "sortable column = Missing \<or> sortable column = Flag flag \<Longrightarrow> columnResult column row row = 0"
  by (auto simp: columnResult_def baseComparator_def strict_eq_refl)

lemma consistent_pair:
  assumes "cmp x x = 0" and "cmp y y = 0" and "cmp x y < 0" and "cmp y x > 0"
  shows "consistent_comparator cmp [x, y]" and "consistent_comparator cmp [y, x]"
  using assms by (auto simp: consistent_comparator_def)

text \<open>
  C1, amended. When exactly one of two rows has an absent sort-key value, \<open>baseComparator\<close>
  and the comparator derived for a column without a comparator object put the row with the
  defined value first (-1 when the first operand is the defined one, 1 otherwise). The row
  comparator multiplies this by the direction, and it is a consistent comparator for the
  two rows: sorted ascending the row with the defined value comes first, sorted descending
  the row with the absent value comes first. A row that is itself \<open>undefined\<close> is not
  compared and stays last, whatever the comparator.
\<close>

theorem defined_before_absent:
  "(isDefined (selector x) \<and> \<not> isDefined (selector y) \<longrightarrow>
      baseComparator selector matcher x y = - 1 \<and> baseComparator selector matcher y x = 1)
   \<and> ((sortable column = Missing \<or> sortable column = Flag flag)
        \<and> isDefined (render column rowD (- 1)) \<and> \<not> isDefined (render column rowA (- 1)) \<longrightarrow>
      columnResult column rowD rowA = - 1 \<and> columnResult column rowA rowD = 1
      \<and> rowComparator [(column, st)] rowD rowA = - direction st
      \<and> rowComparator [(column, st)] rowA rowD = direction st
      \<and> (direction st = 1 \<longrightarrow>
           consistent_comparator (rowComparator [(column, st)]) [rowA, rowD]
           \<and> array_sort (rowComparator [(column, st)]) [Some rowA, Some rowD]
               = [Some rowD, Some rowA]
           \<and> array_sort (rowComparator [(column, st)]) [Some rowD, Some rowA]
               = [Some rowD, Some rowA])
      \<and> (direction st = - 1 \<longrightarrow>
           consistent_comparator (rowComparator [(column, st)]) [rowA, rowD]
           \<and> array_sort (rowComparator [(column, st)]) [Some rowA, Some rowD]
               = [Some rowA, Some rowD]
           \<and> array_sort (rowComparator [(column, st)]) [Some rowD, Some rowA]
               = [Some rowA, Some rowD]))
   \<and> array_sort cmp [None, Some row] = [Some row, None]
   \<and> array_sort cmp [Some row, None] = [Some row, None]"
proof -
  have col: "columnResult column rowD rowA = - 1 \<and> columnResult column rowA rowD = 1
      \<and> rowComparator [(column, st)] rowD rowD = 0 \<and> rowComparator [(column, st)] rowA rowA = 0"
    if "sortable column = Missing \<or> sortable column = Flag flag"
      "isDefined (render column rowD (- 1))" "\<not> isDefined (render column rowA (- 1))"
    using columnResult_one_absent [OF that] columnResult_same [OF that(1)] by simp
  have ascending: "consistent_comparator (rowComparator [(column, st)]) [rowA, rowD]"
    if "columnResult column rowD rowA = - 1" "columnResult column rowA rowD = 1"
      "rowComparator [(column, st)] rowD rowD = 0" "rowComparator [(column, st)] rowA rowA = 0"
      "direction st = 1"
    using that by (intro consistent_pair(2)) simp_all
  have descending: "consistent_comparator (rowComparator [(column, st)]) [rowA, rowD]"
    if "columnResult column rowD rowA = - 1" "columnResult column rowA rowD = 1"
      "rowComparator [(column, st)] rowD rowD = 0" "rowComparator [(column, st)] rowA rowA = 0"
      "direction st = - 1"
    using that by (intro consistent_pair(1)) simp_all
  have undefined_last: "array_sort cmp [None, Some row] = [Some row, None]"
    "array_sort cmp [Some row, None] = [Some row, None]"
    by (simp_all add: array_sort_def sort_defined_def)
  show ?thesis
    using baseComparator_one_absent [of selector x y matcher] col ascending descending
      undefined_last
    by (auto simp: array_sort_pair Let_def)
qed

theorem defined_before_absent_witness:
  "baseComparator self_selector valueMatcher (Num (whole 1)) Undefined = - 1
   \<and> baseComparator self_selector valueMatcher Undefined (Num (whole 1)) = 1
   \<and> columnResult value_column (Row (Num (whole 1))) (Row Null) = - 1
   \<and> array_sort (rowComparator [(value_column, ascending)]) [Some (Row Null), number_row 1]
       = [number_row 1, Some (Row Null)]
   \<and> array_sort (rowComparator [(value_column, descending)]) [number_row 1, Some (Row Null)]
       = [Some (Row Null), number_row 1]
   \<and> array_sort (rowComparator [(value_column, descending)]) [None, number_row 1]
       = [number_row 1, None]"
  using defined_before_absent [of self_selector "Num (whole 1)" Undefined valueMatcher value_column
      True "Row (Num (whole 1))" "Row Null" ascending "rowComparator [(value_column, descending)]"
      "Row (Num (whole 1))"]
    defined_before_absent [of self_selector "Num (whole 1)" Undefined valueMatcher value_column
      True "Row (Num (whole 1))" "Row Null" descending "rowComparator [(value_column, descending)]"
      "Row (Num (whole 1))"]
  by (simp add: self_selector_def value_column_def ascending_def descending_def number_row_def)

text \<open>
  The rows \<open>{n: undefined}\<close> and \<open>{n: 1}\<close>, with a column that shows \<open>n\<close>: sorted
  ascending the row with 1 comes first, sorted descending the row with \<open>undefined\<close> comes
  first.
\<close>

theorem absent_first_counterexample:
  "data (toggleColumnSort value_column (new_table [Some (Row Undefined), number_row 1] False))
     = [number_row 1, Some (Row Undefined)]
   \<and> data (toggleColumnSort value_column
        (toggleColumnSort value_column (new_table [Some (Row Undefined), number_row 1] False)))
      = [Some (Row Undefined), number_row 1]
   \<and> baseComparator self_selector valueMatcher Undefined (Num (whole 1)) = 1"
  by (simp add: toggleColumnSort_def new_table_def value_column_def clearTableSort_def
      requestUpdate_def setColumnSort_def setColumnSort_states_def nextPriority_def sortData_def
      priorityOrder_def array_sort_def sort_defined_def columnResult_def baseComparator_def
      valueMatcher_def self_selector_def number_row_def)

section \<open>Toggling\<close>

lemma toggle_entry:
  assumes "case map_get (sortStates t) column of None \<Rightarrow> True | Some st \<Rightarrow> direction st \<noteq> 0"
  shows "map_option direction (map_get (sortStates (toggleColumnSort column t)) column)
    = Some ((case map_get (sortStates t) column of None \<Rightarrow> - 1 | Some st \<Rightarrow> direction st) * (- 1))"
  using assms
  by (auto simp: sortStates_toggleColumnSort setColumnSort_states_def Let_def map_get_map_set_same
      split: option.splits)

lemma toggle_new_entry:
  assumes "map_get (sortStates t) column = None"
  shows "map_get (sortStates (toggleColumnSort column t)) column
    = Some \<lparr>direction = 1, priority = (if multiSort t then nextPriority (sortStates t) else 1)\<rparr>"
  using assms
  by (simp add: sortStates_toggleColumnSort setColumnSort_states_def Let_def map_get_map_set_same
      nextPriority_Nil)

text \<open>
  C9. \<open>toggleColumnSort\<close> on a column whose \<open>sortable\<close> is \<open>false\<close> or missing, and
  which has no entry, adds an ascending entry for it: nothing in the store looks at
  \<open>sortable\<close>. The operations have no failing branch.
\<close>

theorem toggle_unsortable:
  "(sortable column = Missing \<or> sortable column = Flag False)
   \<Longrightarrow> map_get (sortStates t) column = None
   \<Longrightarrow> map_get (sortStates (toggleColumnSort column t)) column
       = Some \<lparr>direction = 1, priority = (if multiSort t then nextPriority (sortStates t) else 1)\<rparr>"
  by (rule toggle_new_entry)

theorem toggle_unsortable_witness:
  "sortable plain_column = Missing
   \<and> map_get (sortStates (new_table two_rows True)) plain_column = None
   \<and> map_get (sortStates (toggleColumnSort plain_column (new_table two_rows True))) plain_column
       = Some \<lparr>direction = 1, priority = 1\<rparr>
   \<and> sortable unsortable_column = Flag False
   \<and> map_get (sortStates (toggleColumnSort value_column (new_table two_rows True)))
         unsortable_column = None
   \<and> map_get (sortStates (toggleColumnSort unsortable_column
         (toggleColumnSort value_column (new_table two_rows True)))) unsortable_column
       = Some \<lparr>direction = 1, priority = 2\<rparr>"
  using toggle_unsortable [of plain_column "new_table two_rows True"]
    toggle_unsortable [of unsortable_column
      "toggleColumnSort value_column (new_table two_rows True)"]
  by (simp add: plain_column_def unsortable_column_def value_column_def new_table_def
      nextPriority_def sortStates_toggleColumnSort multiSort_toggleColumnSort
      setColumnSort_states_def)

text \<open>
  C4. For a column without an entry, one call of \<open>toggleColumnSort\<close> leaves it with
  direction 1, a second call with -1, a third with 1 again, whatever \<open>multiSort\<close> is. In
  general the direction after a call is \<open>(currentDirection ?? -1) * -1\<close>.
\<close>

theorem toggle_cycle:
  "(map_get (sortStates t) column = None \<longrightarrow>
      map_option direction (map_get (sortStates (toggleColumnSort column t)) column) = Some 1
      \<and> map_option direction
          (map_get (sortStates (toggleColumnSort column (toggleColumnSort column t))) column)
          = Some (- 1)
      \<and> map_option direction
          (map_get (sortStates (toggleColumnSort column
             (toggleColumnSort column (toggleColumnSort column t)))) column)
          = Some 1)
   \<and> (directions_ok (sortStates t) \<longrightarrow>
      map_option direction (map_get (sortStates (toggleColumnSort column t)) column)
      = Some ((case map_get (sortStates t) column of None \<Rightarrow> - 1 | Some st \<Rightarrow> direction st) * (- 1)))"
proof -
  have step: "map_option direction (map_get (sortStates (toggleColumnSort column u)) column) = Some (- d)"
    if "map_option direction (map_get (sortStates u) column) = Some d" "d \<noteq> 0" for u d
    using that toggle_entry [of u column] by (auto split: option.splits)
  have once: "map_option direction (map_get (sortStates (toggleColumnSort column t)) column) = Some 1"
    if "map_get (sortStates t) column = None"
    using that toggle_entry [of t column] by simp
  have general: "map_option direction (map_get (sortStates (toggleColumnSort column t)) column)
      = Some ((case map_get (sortStates t) column of None \<Rightarrow> - 1 | Some st \<Rightarrow> direction st) * (- 1))"
    if "directions_ok (sortStates t)"
  proof (rule toggle_entry)
    show "case map_get (sortStates t) column of None \<Rightarrow> True | Some st \<Rightarrow> direction st \<noteq> 0"
      using map_get_direction [OF that, of column] by (auto split: option.splits)
  qed
  from once step [of _ 1] step [of _ "- 1"] general show ?thesis
    by (metis minus_equation_iff zero_neq_neg_one zero_neq_one)
qed

theorem toggle_cycle_witness:
  "map_get (sortStates (new_table two_rows True)) value_column = None
   \<and> directions_ok (sortStates (new_table two_rows True))
   \<and> map_option direction (map_get (sortStates
        (toggleColumnSort value_column (new_table two_rows True))) value_column) = Some 1
   \<and> map_option direction (map_get (sortStates
        (toggleColumnSort value_column
          (toggleColumnSort value_column (new_table two_rows True)))) value_column) = Some (- 1)
   \<and> map_get (sortStates (new_table two_rows False)) value_column = None
   \<and> map_option direction (map_get (sortStates
        (toggleColumnSort value_column
          (toggleColumnSort value_column
            (toggleColumnSort value_column (new_table two_rows False))))) value_column) = Some 1"
  using toggle_cycle [of "new_table two_rows True" value_column]
    toggle_cycle [of "new_table two_rows False" value_column]
  by (simp add: new_table_def directions_ok_def)

text \<open>
  C5. With \<open>multiSort = false\<close>, after \<open>toggleColumnSort(colB)\<close> the store holds exactly
  one entry, for \<open>colB\<close>, with priority 1 and the direction computed from the entry
  \<open>colB\<close> had before the call.
\<close>

theorem toggle_single_sort:
  assumes "\<not> multiSort t" and "directions_ok (sortStates t)"
  shows "sortStates (toggleColumnSort colB t) =
    [(colB, \<lparr>direction = (case map_get (sortStates t) colB of None \<Rightarrow> - 1 | Some st \<Rightarrow> direction st) * (- 1),
             priority = 1\<rparr>)]"
proof -
  have "case map_get (sortStates t) colB of None \<Rightarrow> True | Some st \<Rightarrow> direction st \<noteq> 0"
    using map_get_direction [OF assms(2), of colB] by (auto split: option.splits)
  with assms(1) show ?thesis
    by (auto simp: sortStates_toggleColumnSort setColumnSort_states_def Let_def nextPriority_Nil
        split: option.splits)
qed


theorem toggle_single_sort_witness:
  "\<not> multiSort (toggleColumnSort value_column (new_table two_rows False))
   \<and> directions_ok (sortStates (toggleColumnSort value_column (new_table two_rows False)))
   \<and> sortStates (toggleColumnSort value_column
         (toggleColumnSort value_column (new_table two_rows False)))
       = [(value_column, \<lparr>direction = - 1, priority = 1\<rparr>)]
   \<and> sortStates (toggleColumnSort plain_column
         (toggleColumnSort value_column (new_table two_rows False)))
       = [(plain_column, \<lparr>direction = 1, priority = 1\<rparr>)]"
  using toggle_single_sort [of "toggleColumnSort value_column (new_table two_rows False)"
      value_column]
    toggle_single_sort [of "toggleColumnSort value_column (new_table two_rows False)"
      plain_column]
  by (simp add: multiSort_toggleColumnSort sortStates_toggleColumnSort setColumnSort_states_def
      nextPriority_Nil directions_ok_def new_table_def value_column_def plain_column_def)

section \<open>The row comparator\<close>

lemma insert_by_priority:
  "insert_by (\<lambda>a b. priority (snd a) - priority (snd b)) x ys
     = insort_key (\<lambda>entry. priority (snd entry)) x ys"
  by (induction ys) simp_all

lemma priorityOrder_sort_defined:
  "priorityOrder states = sort_defined (\<lambda>a b. priority (snd a) - priority (snd b)) states"
  by (simp add: priorityOrder_def array_sort_Some defined_elements_Some)

lemma priorityOrder_sort_key:
  "priorityOrder states = sort_key (\<lambda>entry. priority (snd entry)) states"
  unfolding priorityOrder_sort_defined
  by (induction states) (simp_all add: sort_defined_def insert_by_priority)









section \<open>The map operations and the renumbering loop\<close>

lemma keys_map_set:
  "map (\<lambda>entry. ref (fst entry)) (map_set column v states) =
     (if ref column \<in> set (map (\<lambda>entry. ref (fst entry)) states)
      then map (\<lambda>entry. ref (fst entry)) states
      else map (\<lambda>entry. ref (fst entry)) states @ [ref column])"
  by (induction states) (force split: if_splits)+

lemma map_get_None_all:
  "map_get states column = None \<longleftrightarrow> (\<forall>e \<in> set states. ref (fst e) \<noteq> ref column)"
  by (induction states) (auto split: if_splits)

lemma map_get_None_iff:
  "map_get states column = None \<longleftrightarrow> ref column \<notin> set (map (\<lambda>entry. ref (fst entry)) states)"
  by (force simp: map_get_None_all)

lemma map_set_absent:
  "map_get states column = None \<Longrightarrow> map_set column v states = states @ [(column, v)]"
  by (induction states) (auto split: if_splits)

lemma map_set_present:
  "keys_distinct states \<Longrightarrow> map_get states column \<noteq> None \<Longrightarrow>
     map_set column v states =
       map (\<lambda>entry. (fst entry, if ref (fst entry) = ref column then v else snd entry)) states"
proof (induction states)
  case Nil
  then show ?case by simp
next
  case (Cons entry states)
  obtain c st where entry: "entry = (c, st)" by (cases entry)
  show ?case
  proof (cases "ref c = ref column")
    case True
    with Cons.prems(1) have "\<forall>e \<in> set states. ref (fst e) \<noteq> ref column"
      by (force simp: keys_distinct_def entry)
    then have "map (\<lambda>entry. (fst entry, if ref (fst entry) = ref column then v else snd entry)) states
        = states"
      by (induction states) auto
    with True show ?thesis by (simp add: entry)
  next
    case False
    with Cons show ?thesis by (simp add: entry keys_distinct_def)
  qed
qed

lemma map_get_mem:
  "keys_distinct states \<Longrightarrow> (c, st) \<in> set states \<Longrightarrow> map_get states c = Some st"
  by (induction states) (auto simp: keys_distinct_def rev_image_eqI)

lemma map_delete_filter:
  "keys_distinct states \<Longrightarrow>
     map_delete column states = filter (\<lambda>entry. ref (fst entry) \<noteq> ref column) states"
proof (induction states)
  case Nil
  then show ?case by simp
next
  case (Cons entry states)
  obtain c st where entry: "entry = (c, st)" by (cases entry)
  show ?case
  proof (cases "ref c = ref column")
    case True
    with Cons.prems have "\<forall>e \<in> set states. ref (fst e) \<noteq> ref column"
      by (force simp: keys_distinct_def entry)
    then have "filter (\<lambda>entry. ref (fst entry) \<noteq> ref column) states = states"
      by simp
    with True show ?thesis by (simp add: entry)
  next
    case False
    with Cons show ?thesis by (simp add: entry keys_distinct_def)
  qed
qed

lemma keys_distinct_map_delete: "keys_distinct states \<Longrightarrow> keys_distinct (map_delete column states)"
  by (simp add: map_delete_filter) (simp add: keys_distinct_def distinct_map_filter)

lemma map_get_map_delete: "keys_distinct states \<Longrightarrow> map_get (map_delete column states) column = None"
  by (simp add: map_delete_filter map_get_None_all)

text \<open>The loop of \<open>renumber\<close>, entry by entry.\<close>

lemma renumber_loop:
  assumes "keys_distinct m"
    and "set (map (\<lambda>entry. ref (fst entry)) entries) \<subseteq> set (map (\<lambda>entry. ref (fst entry)) m)"
  shows "foldl (\<lambda>m (index, entry). map_set (fst entry) ((snd entry)\<lparr>priority := int index + 1\<rparr>) m)
           m (enumerate n entries)
         = map (\<lambda>e. (fst e, renumbered n entries (fst e) (snd e))) m"
  using assms
proof (induction entries arbitrary: m n)
  case Nil
  then show ?case by simp
next
  case (Cons entry entries)
  let ?v = "(snd entry)\<lparr>priority := int n + 1\<rparr>"
  let ?m = "map_set (fst entry) ?v m"
  from Cons.prems(2) have present: "map_get m (fst entry) \<noteq> None"
    by (simp add: map_get_None_iff)
  have m': "?m = map (\<lambda>e. (fst e, if ref (fst e) = ref (fst entry) then ?v else snd e)) m"
    using Cons.prems(1) present by (rule map_set_present)
  have keys: "map (\<lambda>entry. ref (fst entry)) ?m = map (\<lambda>entry. ref (fst entry)) m"
    by (simp add: m' comp_def)
  have "foldl (\<lambda>m (index, entry). map_set (fst entry) ((snd entry)\<lparr>priority := int index + 1\<rparr>) m)
           ?m (enumerate (Suc n) entries)
        = map (\<lambda>e. (fst e, renumbered (Suc n) entries (fst e) (snd e))) ?m"
    using Cons.prems by (intro Cons.IH) (simp_all add: keys keys_distinct_def)
  also have "\<dots> = map (\<lambda>e. (fst e, renumbered n (entry # entries) (fst e) (snd e))) m"
    by (simp add: m' comp_def eq_commute [of "ref (fst entry)"])
  finally show ?case by simp
qed

lemma renumbered_other:
  "ref column \<notin> set (map (\<lambda>entry. ref (fst entry)) entries) \<Longrightarrow> renumbered n entries column st = st"
  by (induction entries arbitrary: n st) auto

lemma renumbered_nth:
  "keys_distinct entries \<Longrightarrow> i < length entries \<Longrightarrow>
     renumbered n entries (fst (entries ! i)) st = (snd (entries ! i))\<lparr>priority := int (n + i) + 1\<rparr>"
proof (induction entries arbitrary: n i st)
  case Nil
  then show ?case by simp
next
  case (Cons entry entries)
  show ?case
  proof (cases i)
    case 0
    from Cons.prems(1) have "ref (fst entry) \<notin> set (map (\<lambda>entry. ref (fst entry)) entries)"
      by (simp add: keys_distinct_def)
    with 0 show ?thesis by (simp add: renumbered_other)
  next
    case (Suc j)
    with Cons.prems have j: "j < length entries" and d: "keys_distinct entries"
      and other: "ref (fst entry) \<noteq> ref (fst (entries ! j))"
      by (auto simp: keys_distinct_def)
    from Cons.IH [OF d j, of "Suc n"] other Suc show ?thesis by simp
  qed
qed

lemma renumbered_chain:
  assumes "keys_distinct entries"
  shows "map (\<lambda>e. (fst e, renumbered 0 entries (fst e) (snd e))) entries = dense entries"
proof (rule nth_equalityI)
  show "length (map (\<lambda>e. (fst e, renumbered 0 entries (fst e) (snd e))) entries) = length (dense entries)"
    by (simp add: dense_def)
next
  fix i
  assume "i < length (map (\<lambda>e. (fst e, renumbered 0 entries (fst e) (snd e))) entries)"
  then have i: "i < length entries" by simp
  with renumbered_nth [OF assms i, of 0 "snd (entries ! i)"]
  show "map (\<lambda>e. (fst e, renumbered 0 entries (fst e) (snd e))) entries ! i = dense entries ! i"
    by (simp add: dense_def nth_enumerate_eq)
qed

lemma mset_priorityOrder: "mset (priorityOrder states) = mset states"
  by (simp add: priorityOrder_sort_key)

lemma keys_distinct_mset:
  "mset xs = mset ys \<Longrightarrow> keys_distinct xs = keys_distinct ys"
  unfolding keys_distinct_def
  by (metis mset_map mset_eq_imp_distinct_iff)

lemma renumber_map:
  assumes "keys_distinct states"
  shows "renumber states =
    map (\<lambda>e. (fst e, renumbered 0 (priorityOrder states) (fst e) (snd e))) states"
proof -
  have "set (map (\<lambda>entry. ref (fst entry)) (priorityOrder states))
      \<subseteq> set (map (\<lambda>entry. ref (fst entry)) states)"
    using mset_eq_setD [OF mset_priorityOrder [of states]] by simp
  with assms show ?thesis
    unfolding renumber_def by (rule renumber_loop)
qed

lemma mset_renumber:
  assumes "keys_distinct states"
  shows "mset (renumber states) = mset (dense (priorityOrder states))"
proof -
  let ?g = "\<lambda>e. (fst e, renumbered 0 (priorityOrder states) (fst e) (snd e))"
  have chain: "keys_distinct (priorityOrder states)"
    using assms keys_distinct_mset [OF mset_priorityOrder [of states]] by simp
  have "mset (renumber states) = image_mset ?g (mset states)"
    by (simp add: renumber_map [OF assms])
  also have "\<dots> = image_mset ?g (mset (priorityOrder states))"
    by (simp add: mset_priorityOrder)
  also have "\<dots> = mset (map ?g (priorityOrder states))"
    by simp
  also have "\<dots> = mset (dense (priorityOrder states))"
    by (simp only: renumbered_chain [OF chain])
  finally show ?thesis .
qed

lemma keys_renumber:
  "keys_distinct states \<Longrightarrow>
     map (\<lambda>entry. ref (fst entry)) (renumber states) = map (\<lambda>entry. ref (fst entry)) states"
  by (simp add: renumber_map comp_def)

lemma priorities_dense:
  "map (\<lambda>entry. priority (snd entry)) (dense chain) = map (\<lambda>i. int i + 1) [0..<length chain]"
  by (rule nth_equalityI) (simp_all add: dense_def nth_enumerate_eq)

lemma priorities_ok_dense: "priorities_ok (dense chain)"
proof -
  have "distinct (map (\<lambda>i. int i + 1) [0..<length chain])"
    by (simp add: distinct_map inj_on_def)
  moreover have "set (map (\<lambda>i. int i + 1) [0..<length chain]) = {1..int (length chain)}"
  proof (intro set_eqI iffI)
    fix x assume "x \<in> {1..int (length chain)}"
    then have "x = int (nat (x - 1)) + 1" "nat (x - 1) < length chain" by auto
    then show "x \<in> set (map (\<lambda>i. int i + 1) [0..<length chain])"
      by (metis (no_types, lifting) atLeast0LessThan image_eqI lessThan_iff list.set_map set_upt)
  qed auto
  moreover have "length (dense chain) = length chain"
    by (simp add: dense_def)
  ultimately show ?thesis
    by (simp add: priorities_ok_def priorities_dense)
qed

lemma priorities_ok_mset:
  assumes "mset xs = mset ys"
  shows "priorities_ok xs = priorities_ok ys"
proof -
  from assms have "mset (map (\<lambda>entry. priority (snd entry)) xs) = mset (map (\<lambda>entry. priority (snd entry)) ys)"
    by simp
  from mset_eq_imp_distinct_iff [OF this] mset_eq_setD [OF this] mset_eq_length [OF assms]
  show ?thesis by (simp add: priorities_ok_def)
qed

lemma priorities_ok_renumber: "keys_distinct states \<Longrightarrow> priorities_ok (renumber states)"
  using priorities_ok_mset [OF mset_renumber] priorities_ok_dense by blast


section \<open>Priorities stay the numbers 1 to N\<close>

lemma map_get_ref: "ref a = ref b \<Longrightarrow> map_get states a = map_get states b"
  by (induction states) auto

lemma foldl_max_priority:
  "foldl (\<lambda>result st. max result (priority st + 1)) a xs
     = Max (insert a ((\<lambda>st. priority st + 1) ` set xs))"
proof (induction xs arbitrary: a)
  case Nil
  then show ?case by simp
next
  case (Cons x xs)
  have "Max (insert a (insert (priority x + 1) ((\<lambda>st. priority st + 1) ` set xs)))
      = Max (insert (max a (priority x + 1)) ((\<lambda>st. priority st + 1) ` set xs))"
    by (cases "xs = []") (simp_all add: max.assoc)
  with Cons.IH [of "max a (priority x + 1)"] show ?case by simp
qed

lemma nextPriority_Max:
  "nextPriority states = Max (insert 1 ((\<lambda>p. p + 1) ` set (map (\<lambda>entry. priority (snd entry)) states)))"
  by (simp add: nextPriority_def foldl_max_priority image_image)

lemma nextPriority_dense:
  assumes "priorities_ok states"
  shows "nextPriority states = int (length states) + 1"
proof -
  from assms have set: "set (map (\<lambda>entry. priority (snd entry)) states) = {1..int (length states)}"
    by (simp add: priorities_ok_def)
  have "Max (insert 1 ((\<lambda>p. p + 1) ` {1..int (length states)})) = int (length states) + 1"
  proof (rule Max_eqI)
    show "int (length states) + 1 \<in> insert 1 ((\<lambda>p. p + 1) ` {1..int (length states)})"
      by (cases states) (auto simp: image_iff)
  qed auto
  then show ?thesis
    by (simp only: nextPriority_Max set)
qed

lemma nextPriority_nonempty:
  assumes "states \<noteq> []" and "\<forall>e \<in> set states. 0 \<le> priority (snd e)"
  shows "nextPriority states = Max (set (map (\<lambda>entry. priority (snd entry)) states)) + 1"
proof -
  let ?P = "set (map (\<lambda>entry. priority (snd entry)) states)"
  have fin: "finite ?P" and ne: "?P \<noteq> {}" using assms(1) by simp_all
  have "Max ((\<lambda>p. p + 1) ` ?P) = Max ?P + 1"
    using fin ne by (intro mono_Max_commute [symmetric] monoI) simp_all
  moreover have "1 \<le> Max ((\<lambda>p. p + 1) ` ?P)"
  proof -
    from ne obtain p where p: "p \<in> ?P" by (metis ex_in_conv)
    with assms(2) have "0 \<le> p" by auto
    moreover have "p + 1 \<le> Max ((\<lambda>p. p + 1) ` ?P)"
      using p fin by (intro Max_ge) simp_all
    ultimately show ?thesis by linarith
  qed
  ultimately have "Max (insert 1 ((\<lambda>p. p + 1) ` ?P)) = Max ?P + 1"
    using fin ne by (simp add: max_def)
  then show ?thesis
    by (simp only: nextPriority_Max)
qed

lemma priorities_ok_append:
  assumes "priorities_ok states" and "priority v = int (length states) + 1"
  shows "priorities_ok (states @ [(column, v)])"
proof -
  have "insert (int (length states) + 1) {1..int (length states)} = {1..int (length states) + 1}"
    by auto
  with assms show ?thesis
    by (simp add: priorities_ok_def)
qed

lemma priorities_map_set_present:
  assumes "keys_distinct states" and "map_get states column = Some st"
    and "priority v = priority st"
  shows "map (\<lambda>entry. priority (snd entry)) (map_set column v states)
    = map (\<lambda>entry. priority (snd entry)) states"
proof -
  have "priority (if ref (fst e) = ref column then v else snd e) = priority (snd e)"
    if "e \<in> set states" for e
  proof (cases "ref (fst e) = ref column")
    case True
    from that have "map_get states (fst e) = Some (snd e)"
      using map_get_mem [OF assms(1), of "fst e" "snd e"] by simp
    with map_get_ref [OF True, of states] assms(2,3) True show ?thesis by simp
  next
    case False
    then show ?thesis by simp
  qed
  then show ?thesis
    using assms(1,2) by (simp add: map_set_present comp_def)
qed

lemma invariant_setColumnSort_states:
  assumes "keys_distinct states" and "priorities_ok states"
  shows "keys_distinct (fst (setColumnSort_states column dir states))
    \<and> priorities_ok (fst (setColumnSort_states column dir states))"
proof (cases "map_get states column")
  case None
  then have "ref column \<notin> set (map (\<lambda>entry. ref (fst entry)) states)"
    by (simp add: map_get_None_iff)
  with assms(1) have "keys_distinct (states @ [(column, v)])" for v
    by (simp add: keys_distinct_def)
  with None assms priorities_ok_append [OF assms(2), of _ column] show ?thesis
    by (simp add: setColumnSort_states_def map_set_absent nextPriority_dense)
next
  case (Some st)
  have update: "keys_distinct (map_set column (st\<lparr>direction := dir\<rparr>) states)
      \<and> priorities_ok (map_set column (st\<lparr>direction := dir\<rparr>) states)"
  proof -
    have "map (\<lambda>entry. priority (snd entry)) (map_set column (st\<lparr>direction := dir\<rparr>) states)
        = map (\<lambda>entry. priority (snd entry)) states"
      using assms(1) Some by (rule priorities_map_set_present) simp
    moreover have "map (\<lambda>entry. ref (fst entry)) (map_set column (st\<lparr>direction := dir\<rparr>) states)
        = map (\<lambda>entry. ref (fst entry)) states"
    proof -
      from Some have "ref column \<in> set (map (\<lambda>entry. ref (fst entry)) states)"
        using map_get_None_iff [of states column] by simp
      then show ?thesis
        by (simp only: keys_map_set if_True)
    qed
    moreover have "length (map_set column (st\<lparr>direction := dir\<rparr>) states) = length states"
      using calculation(2) by (metis length_map)
    ultimately show ?thesis
      using assms by (simp add: keys_distinct_def priorities_ok_def)
  qed
  have clear: "keys_distinct (renumber (map_delete column states))
      \<and> priorities_ok (renumber (map_delete column states))"
    using keys_distinct_map_delete [OF assms(1), of column]
    by (simp add: priorities_ok_renumber) (simp add: keys_distinct_def keys_renumber)
  from Some update clear assms show ?thesis
    by (simp add: setColumnSort_states_def Let_def)
qed

lemma invariant_call:
  assumes "keys_distinct (sortStates t) \<and> priorities_ok (sortStates t)"
  shows "keys_distinct (sortStates (call c t)) \<and> priorities_ok (sortStates (call c t))"
proof -
  have empty: "keys_distinct ([] :: 'a SortStates)" "priorities_ok ([] :: 'a SortStates)"
    by (simp_all add: keys_distinct_def priorities_ok_def)
  show ?thesis
  proof (cases c)
    case (ToggleColumnSort column)
    then show ?thesis
      using assms empty invariant_setColumnSort_states [of "sortStates t" column]
        invariant_setColumnSort_states [of "[]" column]
      by (simp add: sortStates_toggleColumnSort)
  next
    case (ClearColumnSort column)
    then show ?thesis
      using assms invariant_setColumnSort_states [of "sortStates t" column 0]
      by (simp add: clearColumnSort_def sortStates_setColumnSort)
  next
    case (SetColumnSort column dir)
    then show ?thesis
      using assms invariant_setColumnSort_states [of "sortStates t" column dir]
      by (simp add: sortStates_setColumnSort)
  next
    case ClearTableSort
    then show ?thesis
      using empty by (simp add: sortStates_clearTableSort)
  qed
qed

lemma invariant_run:
  "keys_distinct (sortStates t) \<and> priorities_ok (sortStates t) \<Longrightarrow>
     keys_distinct (sortStates (run calls t)) \<and> priorities_ok (sortStates (run calls t))"
  unfolding run_def
proof (induction calls arbitrary: t)
  case Nil
  then show ?case by simp
next
  case (Cons c calls)
  from Cons.IH [OF invariant_call [OF Cons.prems, of c]] show ?case by simp
qed

text \<open>
  C2. After any sequence of \<open>toggleColumnSort\<close>, \<open>clearColumnSort\<close>, \<open>setColumnSort\<close>
  and \<open>clearTableSort\<close> calls on a table whose store is empty, the priorities of the
  entries are the numbers 1 to N, N the number of entries, and no two entries share one.
\<close>

theorem priorities_contiguous:
  assumes "sortStates t = []"
  shows "priorities_ok (sortStates (run calls t))"
proof -
  from assms have "keys_distinct (sortStates t) \<and> priorities_ok (sortStates t)"
    by (simp add: keys_distinct_def priorities_ok_def)
  then show ?thesis
    using invariant_run by blast
qed



theorem priorities_contiguous_witness:
  "sortStates (new_table two_rows True) = []
   \<and> priorities_ok (sortStates (run
         [ToggleColumnSort value_column, ToggleColumnSort plain_column,
          ToggleColumnSort value_column, ClearColumnSort value_column]
         (new_table two_rows True)))
   \<and> map (\<lambda>entry. (ref (fst entry), snd entry)) (sortStates (run
         [ToggleColumnSort value_column, ToggleColumnSort plain_column,
          ToggleColumnSort value_column, ClearColumnSort value_column]
         (new_table two_rows True)))
       = [(1, \<lparr>direction = 1, priority = 1\<rparr>)]"
  using priorities_contiguous [of "new_table two_rows True"
      "[ToggleColumnSort value_column, ToggleColumnSort plain_column,
        ToggleColumnSort value_column, ClearColumnSort value_column]"]
  by (simp add: run_def sortStates_toggleColumnSort multiSort_toggleColumnSort clearColumnSort_def
      sortStates_setColumnSort setColumnSort_states_def nextPriority_def renumber_def
      priorityOrder_def array_sort_def sort_defined_def new_table_def value_column_def plain_column_def)

section \<open>The precedence chain in multi-sort mode\<close>

lemma length_renumber: "keys_distinct states \<Longrightarrow> length (renumber states) = length states"
  by (simp add: renumber_map)

lemma sorted_priorities_dense: "sorted (map (\<lambda>entry. priority (snd entry)) (dense chain))"
  by (simp add: priorities_dense sorted_map sorted_wrt_iff_nth_less)

lemma priorityOrder_renumber:
  assumes "keys_distinct states"
  shows "priorityOrder (renumber states) = dense (priorityOrder states)"
proof -
  have "distinct (map (\<lambda>entry. priority (snd entry)) (renumber states))"
    using priorities_ok_renumber [OF assms] by (simp add: priorities_ok_def)
  then have "inj_on (\<lambda>entry. priority (snd entry)) (set (renumber states))"
    by (simp add: distinct_map)
  with mset_renumber [OF assms] sorted_priorities_dense [of "priorityOrder states"]
  have "sort_key (\<lambda>entry. priority (snd entry)) (renumber states) = dense (priorityOrder states)"
    by (intro sort_key_inj_key_eq)
  then show ?thesis
    by (simp only: priorityOrder_sort_key)
qed

lemma clear_states:
  assumes "keys_distinct states" and "map_get states column \<noteq> None"
  shows "setColumnSort_states column 0 states =
    (renumber (filter (\<lambda>entry. ref (fst entry) \<noteq> ref column) states),
     filter (\<lambda>entry. ref (fst entry) \<noteq> ref column) states \<noteq> [])"
proof -
  have d: "keys_distinct (filter (\<lambda>entry. ref (fst entry) \<noteq> ref column) states)"
    using keys_distinct_map_delete [OF assms(1), of column] by (simp add: map_delete_filter [OF assms(1)])
  have "(renumber (filter (\<lambda>entry. ref (fst entry) \<noteq> ref column) states) = [])
      = (filter (\<lambda>entry. ref (fst entry) \<noteq> ref column) states = [])"
    using length_renumber [OF d] by (metis length_0_conv)
  with assms(2) show ?thesis
    by (simp add: setColumnSort_states_def Let_def map_delete_filter [OF assms(1)])
qed

text \<open>
  C6. In multi-sort mode, toggling column A and then column B on an empty store gives the
  chain A (priority 1), B (priority 2); clearing A then leaves B alone with priority 1.
  A new entry goes last with priority 1 on an empty store and the highest priority plus 1
  otherwise, and the call asks for a sort. Clearing a column that has an entry removes it
  and gives the remaining entries, in their priority order, the priorities 1, 2, ...; the
  rows are sorted again, by the remaining chain, exactly when an entry remains.
\<close>

theorem multi_sort_chain:
  "(multiSort t \<and> sortStates t = [] \<and> ref colA \<noteq> ref colB \<longrightarrow>
      priorityOrder (sortStates (toggleColumnSort colB (toggleColumnSort colA t)))
        = [(colA, \<lparr>direction = 1, priority = 1\<rparr>), (colB, \<lparr>direction = 1, priority = 2\<rparr>)]
      \<and> sortStates (clearColumnSort colA (toggleColumnSort colB (toggleColumnSort colA t)))
        = [(colB, \<lparr>direction = 1, priority = 1\<rparr>)])
   \<and> (map_get states column = None \<and> dir \<noteq> 0 \<and> (\<forall>e \<in> set states. 0 \<le> priority (snd e)) \<longrightarrow>
      setColumnSort_states column dir states =
        (states @ [(column, \<lparr>direction = dir,
            priority = (if states = [] then 1
                        else Max (set (map (\<lambda>entry. priority (snd entry)) states)) + 1)\<rparr>)],
         True))
   \<and> (keys_distinct states \<and> map_get states column \<noteq> None \<longrightarrow>
      map_get (fst (setColumnSort_states column 0 states)) column = None
      \<and> priorityOrder (fst (setColumnSort_states column 0 states))
        = dense (priorityOrder (filter (\<lambda>entry. ref (fst entry) \<noteq> ref column) states))
      \<and> snd (setColumnSort_states column 0 states)
        = (filter (\<lambda>entry. ref (fst entry) \<noteq> ref column) states \<noteq> []))
   \<and> (keys_distinct (sortStates u) \<and> map_get (sortStates u) column \<noteq> None \<longrightarrow>
      data (clearColumnSort column u) =
        (if filter (\<lambda>entry. ref (fst entry) \<noteq> ref column) (sortStates u) = [] then data u
         else array_sort
           (rowComparator
              (dense (priorityOrder (filter (\<lambda>entry. ref (fst entry) \<noteq> ref column) (sortStates u)))))
           (data u)))"
proof -
  have scenario: "priorityOrder (sortStates (toggleColumnSort colB (toggleColumnSort colA t)))
        = [(colA, \<lparr>direction = 1, priority = 1\<rparr>), (colB, \<lparr>direction = 1, priority = 2\<rparr>)]
      \<and> sortStates (clearColumnSort colA (toggleColumnSort colB (toggleColumnSort colA t)))
        = [(colB, \<lparr>direction = 1, priority = 1\<rparr>)]"
    if "multiSort t" "sortStates t = []" "ref colA \<noteq> ref colB"
    using that
    by (simp add: sortStates_toggleColumnSort multiSort_toggleColumnSort clearColumnSort_def
        sortStates_setColumnSort setColumnSort_states_def nextPriority_def renumber_def
        priorityOrder_def array_sort_def sort_defined_def)
  have insert: "setColumnSort_states column dir states =
        (states @ [(column, \<lparr>direction = dir,
            priority = (if states = [] then 1
                        else Max (set (map (\<lambda>entry. priority (snd entry)) states)) + 1)\<rparr>)],
         True)"
    if "map_get states column = None" "dir \<noteq> 0" "\<forall>e \<in> set states. 0 \<le> priority (snd e)"
  proof (cases "states = []")
    case True
    with that show ?thesis
      by (simp add: setColumnSort_states_def nextPriority_Nil)
  next
    case False
    with that nextPriority_nonempty [OF False that(3)] show ?thesis
      by (simp add: setColumnSort_states_def map_set_absent)
  qed
  have clear: "map_get (fst (setColumnSort_states column 0 states)) column = None
      \<and> priorityOrder (fst (setColumnSort_states column 0 states))
        = dense (priorityOrder (filter (\<lambda>entry. ref (fst entry) \<noteq> ref column) states))
      \<and> snd (setColumnSort_states column 0 states)
        = (filter (\<lambda>entry. ref (fst entry) \<noteq> ref column) states \<noteq> [])"
    if "keys_distinct states" "map_get states column \<noteq> None"
  proof -
    let ?rest = "filter (\<lambda>entry. ref (fst entry) \<noteq> ref column) states"
    have d: "keys_distinct ?rest"
      using keys_distinct_map_delete [OF that(1), of column]
      by (simp add: map_delete_filter [OF that(1)])
    have "ref column \<notin> set (map (\<lambda>entry. ref (fst entry)) (renumber ?rest))"
      by (simp only: keys_renumber [OF d]) auto
    then have "map_get (renumber ?rest) column = None"
      using map_get_None_iff [of "renumber ?rest" column] by blast
    with priorityOrder_renumber [OF d] show ?thesis
      by (simp add: clear_states [OF that])
  qed
  have sorted: "data (clearColumnSort column u) =
        (if filter (\<lambda>entry. ref (fst entry) \<noteq> ref column) (sortStates u) = [] then data u
         else array_sort
           (rowComparator
              (dense (priorityOrder (filter (\<lambda>entry. ref (fst entry) \<noteq> ref column) (sortStates u)))))
           (data u))"
    if "keys_distinct (sortStates u)" "map_get (sortStates u) column \<noteq> None"
  proof -
    let ?rest = "filter (\<lambda>entry. ref (fst entry) \<noteq> ref column) (sortStates u)"
    have d: "keys_distinct ?rest"
      using keys_distinct_map_delete [OF that(1), of column]
      by (simp add: map_delete_filter [OF that(1)])
    show ?thesis
      by (simp add: clearColumnSort_def setColumnSort_def clear_states [OF that] data_requestUpdate
          sortData_def priorityOrder_renumber [OF d])
  qed
  from scenario insert clear sorted show ?thesis
    by blast
qed


theorem multi_sort_chain_witness:
  "multiSort (new_table two_rows True)
   \<and> sortStates (new_table two_rows True) = []
   \<and> ref value_column \<noteq> ref plain_column
   \<and> priorityOrder (sortStates (toggleColumnSort plain_column
         (toggleColumnSort value_column (new_table two_rows True))))
       = [(value_column, \<lparr>direction = 1, priority = 1\<rparr>),
          (plain_column, \<lparr>direction = 1, priority = 2\<rparr>)]
   \<and> sortStates (clearColumnSort value_column (toggleColumnSort plain_column
         (toggleColumnSort value_column (new_table two_rows True))))
       = [(plain_column, \<lparr>direction = 1, priority = 1\<rparr>)]
   \<and> setColumnSort_states plain_column (- 1) [(value_column, ascending)]
       = ([(value_column, ascending), (plain_column, \<lparr>direction = - 1, priority = 2\<rparr>)], True)
   \<and> keys_distinct [(value_column, ascending)]
   \<and> setColumnSort_states value_column 0 [(value_column, ascending)] = ([], False)
   \<and> data (clearColumnSort value_column (toggleColumnSort plain_column
         (toggleColumnSort value_column (new_table two_rows True))))
       = [number_row 1, number_row 2]"
  using multi_sort_chain [where t = "new_table two_rows True" and colA = value_column
      and colB = plain_column and states = "[(value_column, ascending)]" and column = plain_column
      and dir = "- 1"
      and u = "toggleColumnSort plain_column
         (toggleColumnSort value_column (new_table two_rows True))"]
    multi_sort_chain [where t = "new_table two_rows True" and colA = value_column
      and colB = plain_column and states = "[(value_column, ascending)]" and column = value_column
      and dir = "- 1"
      and u = "toggleColumnSort plain_column
         (toggleColumnSort value_column (new_table two_rows True))"]
  by (simp add: new_table_def two_rows_def number_row_def whole_simps value_column_def
      plain_column_def ascending_def keys_distinct_def
      toggleColumnSort_def clearTableSort_def clearColumnSort_def requestUpdate_def
      setColumnSort_def setColumnSort_states_def nextPriority_def renumber_def sortData_def
      priorityOrder_def array_sort_def sort_defined_def columnResult_def baseComparator_def valueMatcher_def
      dense_def)

end
